theory Spec2Isabelle
  imports Complex_Main "HOL-Library.Sublist"
begin

section \<open>The Orca parsers of qccodec (\<^verbatim>\<open>qccodec/parsers/orca.py\<close>)\<close>

text \<open>
  The module has two functions: the generator \<^verbatim>\<open>iter_files\<close>, which turns the optional
  console text and the optional output directory into a sequence of tagged artifacts, and
  the extraction routine \<^verbatim>\<open>parse_energy\<close>, which searches the console text for the
  pattern \<^verbatim>\<open>FINAL ENERGY: (-?\d+(?:\.\d+)?)\<close> and converts group 1 to a float.

  A Python \<^verbatim>\<open>str\<close> is modelled as a \<^typ>\<open>string\<close>; a character stands for the code
  point of the same number, so the texts covered are those over the code points 0 to 255.
\<close>

subsection \<open>Exceptions\<close>

text \<open>
  \<^verbatim>\<open>ParserError\<close> carries its message. \<^verbatim>\<open>TypeError\<close> and \<^verbatim>\<open>ValueError\<close> are what
  \<^verbatim>\<open>float\<close> raises on \<^verbatim>\<open>None\<close> and on a string that is not a number.
\<close>

datatype error = ParserError string | MatchNotFoundError | TypeError | ValueError

subsection \<open>Artifacts and the file system\<close>

datatype OrcaFileType = STDOUT | DIRECTORY

text \<open>
  A \<^verbatim>\<open>pathlib.Path\<close> is given by the string it was built from. pathlib's clean-up of
  that string is not modelled: for an argument such as \<^verbatim>\<open>missing/\<close> or \<^verbatim>\<open>./calc\<close> the
  model keeps the spelling of the argument, in the path and in the message of the error,
  where pathlib writes \<^verbatim>\<open>missing\<close> and \<^verbatim>\<open>calc\<close>. The argument \<^verbatim>\<open>directory\<close> is a \<^verbatim>\<open>Path\<close> or a
  \<^verbatim>\<open>str\<close>, and \<^verbatim>\<open>Path(directory)\<close> turns either into a \<^verbatim>\<open>Path\<close>.
\<close>

datatype path = Path string

datatype pathlike = OfStr string | OfPath path

fun to_Path :: "pathlike \<Rightarrow> path" where
  "to_Path (OfStr s) = Path s"
| "to_Path (OfPath p) = p"

fun str_of :: "path \<Rightarrow> string" where
  "str_of (Path s) = s"

text \<open>The payload of an artifact: \<^verbatim>\<open>Union[str, bytes, Path]\<close>.\<close>

datatype payload = Str string | Bytes string | PathOf path

type_synonym artifact = "OrcaFileType \<times> payload"

text \<open>
  The state of the file system as the generator can observe it: the answers of
  \<^verbatim>\<open>Path.exists()\<close> and \<^verbatim>\<open>Path.is_dir()\<close>, and the entries of each directory
  (\<^verbatim>\<open>Path.iterdir()\<close>), which \<^verbatim>\<open>iter_files\<close> never asks for.
\<close>

record filesystem =
  path_exists :: "path \<Rightarrow> bool"
  path_is_dir :: "path \<Rightarrow> bool"
  iterdir :: "path \<Rightarrow> path list"

subsection \<open>\<^verbatim>\<open>iter_files\<close>\<close>

text \<open>
  A run of the generator to its end is the list of the values it yields, in order,
  followed by how it stops: \<open>None\<close> when it returns, \<open>Some e\<close> when it raises \<open>e\<close>.
  An exception ends the generator, so nothing is yielded after it.
\<close>

type_synonym run = "artifact list \<times> error option"

definition not_a_directory :: "path \<Rightarrow> string" where
  "not_a_directory p = ''Directory '' @ str_of p @ '' does not exist or is not a directory.''"

definition iter_files :: "filesystem \<Rightarrow> string option \<Rightarrow> pathlike option \<Rightarrow> run" where
  "iter_files fs stdout directory =
     (let console = (case stdout of None \<Rightarrow> [] | Some text \<Rightarrow> [(STDOUT, Str text)])
      in case directory of
           None \<Rightarrow> (console, None)
         | Some d \<Rightarrow>
             (let p = to_Path d
              in if \<not> path_exists fs p \<or> \<not> path_is_dir fs p
                 then (console, Some (ParserError (not_a_directory p)))
                 else (console @ [(DIRECTORY, PathOf p)], None)))"

subsection \<open>Regular expressions as Python's \<^verbatim>\<open>re\<close> matches them\<close>

text \<open>
  The constructs that the pattern of \<^verbatim>\<open>parse_energy\<close> is written with: a literal
  character, \<^verbatim>\<open>\d\<close>, concatenation, the greedy \<^verbatim>\<open>?\<close> and \<^verbatim>\<open>+\<close>, and the capturing group
  (the pattern has one, so a match records group 1 only).
\<close>

datatype regex = Chr char | Digit | Cat regex regex | Opt regex | Plus regex | Group regex

text \<open>
  In a \<^verbatim>\<open>str\<close> pattern \<^verbatim>\<open>\d\<close> matches every Unicode decimal digit; among the code
  points 0 to 255 these are \<^verbatim>\<open>0\<close> to \<^verbatim>\<open>9\<close>.
\<close>

definition is_digit :: "char \<Rightarrow> bool" where
  "is_digit c = (c \<in> set ''0123456789'')"

text \<open>
  A way of matching a regular expression at the start of a text is given by the text it
  leaves unread and by what group 1 holds (\<open>None\<close> if the group took no part).
\<close>

type_synonym match = "string \<times> string option"

text \<open>A later part of the pattern keeps the group of an earlier part unless it sets its own.\<close>

fun later :: "string option \<Rightarrow> match \<Rightarrow> match" where
  "later g (s, None) = (s, g)"
| "later g (s, Some h) = (s, Some h)"

text \<open>
  \<open>ends r s\<close> lists every way in which \<open>r\<close> matches at the start of \<open>s\<close>, in the order
  in which the backtracking matcher tries them: a greedy \<^verbatim>\<open>?\<close> tries its operand before
  skipping it, a greedy \<^verbatim>\<open>+\<close> tries one more round before stopping, and a round that
  reads nothing ends the repetition. The match that \<^verbatim>\<open>re\<close> reports is the first of the list.
\<close>

function ends :: "regex \<Rightarrow> string \<Rightarrow> match list" where
  "ends (Chr c) s = (case s of [] \<Rightarrow> [] | x # xs \<Rightarrow> if x = c then [(xs, None)] else [])"
| "ends Digit s = (case s of [] \<Rightarrow> [] | x # xs \<Rightarrow> if is_digit x then [(xs, None)] else [])"
| "ends (Cat a b) s = concat (map (\<lambda>m. map (later (snd m)) (ends b (fst m))) (ends a s))"
| "ends (Opt a) s = ends a s @ [(s, None)]"
| "ends (Plus a) s =
     concat (map (\<lambda>m. (if length (fst m) < length s
                         then map (later (snd m)) (ends (Plus a) (fst m)) else []) @ [m])
                 (ends a s))"
| "ends (Group a) s = map (\<lambda>m. (fst m, Some (take (length s - length (fst m)) s))) (ends a s)"
  by pat_completeness auto
termination
  by (relation "measure size <*lex*> measure length") auto

declare ends.simps(5) [simp del]

definition first :: "'a list \<Rightarrow> 'a option" where
  "first xs = (case xs of [] \<Rightarrow> None | x # _ \<Rightarrow> Some x)"

text \<open>
  \<^verbatim>\<open>re.search\<close> tries the start positions from left to right, the position after the last
  character included, and reports the match at the first position that has one.
\<close>

fun search :: "regex \<Rightarrow> string \<Rightarrow> match option" where
  "search r [] = first (ends r [])"
| "search r (x # xs) = (case first (ends r (x # xs)) of None \<Rightarrow> search r xs | Some m \<Rightarrow> Some m)"

definition group1 :: "match \<Rightarrow> string option" where
  "group1 m = snd m"

subsection \<open>\<^verbatim>\<open>re_search\<close>\<close>

text \<open>
  Modelled from the spec: \<^verbatim>\<open>re_search\<close> of \<^verbatim>\<open>qccodec/parsers/utils.py\<close>, which
  \<^verbatim>\<open>orca.py\<close> imports and which is not among the sources. The specification calls it an
  exception-driven find-or-fail text search, one deterministic pattern search whose failure
  is the recoverable outcome "pattern absent"; \<^verbatim>\<open>orca.py\<close> imports \<^verbatim>\<open>MatchNotFoundError\<close>
  for that outcome, and the docstring of \<^verbatim>\<open>parse_energy\<close> says that the search is
  \<^verbatim>\<open>re.search\<close>. So \<^verbatim>\<open>re_search\<close> returns the match of \<^verbatim>\<open>re.search\<close> and raises
  \<^verbatim>\<open>MatchNotFoundError\<close> when there is none.
\<close>

definition re_search :: "regex \<Rightarrow> string \<Rightarrow> error + match" where
  "re_search r s = (case search r s of None \<Rightarrow> Inl MatchNotFoundError | Some m \<Rightarrow> Inr m)"

subsection \<open>\<^verbatim>\<open>float\<close>\<close>

text \<open>
  \<^verbatim>\<open>float(s)\<close> is the binary64 number nearest to the decimal value that \<open>s\<close> denotes.
  The model keeps that decimal value, exactly, as a rational: strings with equal values
  give equal floats, and \<open>Inr v\<close> stands for the float that Python writes as \<open>v\<close>. The
  rounding itself (and with it overflow to infinity) is not modelled.
  The strings modelled are those of the shape \<^verbatim>\<open>-?\d+(\.\d+)?\<close> (\<open>plain_decimal\<close> below),
  the only ones that group 1 of the pattern can hold (lemma \<open>search_converts\<close>). On any other string the model
  answers \<^verbatim>\<open>ValueError\<close>; Python accepts more spellings (exponents, blanks around the
  number, \<^verbatim>\<open>inf\<close>), none of which reaches \<^verbatim>\<open>float\<close> here.
\<close>

definition digit_value :: "char \<Rightarrow> nat" where
  "digit_value c = of_char c - of_char CHR ''0''"

definition digits_value :: "string \<Rightarrow> nat" where
  "digits_value ds = foldl (\<lambda>n c. 10 * n + digit_value c) 0 ds"

definition unsigned_value :: "string \<Rightarrow> error + rat" where
  "unsigned_value s =
     (let whole = takeWhile is_digit s; rest = dropWhile is_digit s
      in if whole = [] then Inl ValueError
         else case rest of
                [] \<Rightarrow> Inr (of_nat (digits_value whole))
              | c # fraction \<Rightarrow>
                  if c = CHR ''.'' \<and> fraction \<noteq> [] \<and> list_all is_digit fraction
                  then Inr (of_nat (digits_value (whole @ fraction)) / 10 ^ length fraction)
                  else Inl ValueError)"

definition float :: "string \<Rightarrow> error + rat" where
  "float s =
     (case s of
        [] \<Rightarrow> Inl ValueError
      | c # t \<Rightarrow> if c = CHR ''-'' then map_sum id uminus (unsigned_value t)
                 else unsigned_value s)"

text \<open>The strings of the shape \<^verbatim>\<open>-?\d+(\.\d+)?\<close>, on which \<^verbatim>\<open>float\<close> is modelled.\<close>

definition unsigned_decimal :: "string \<Rightarrow> bool" where
  "unsigned_decimal s =
     (takeWhile is_digit s \<noteq> [] \<and>
      (case dropWhile is_digit s of
         [] \<Rightarrow> True
       | c # fraction \<Rightarrow> c = CHR ''.'' \<and> fraction \<noteq> [] \<and> list_all is_digit fraction))"

definition plain_decimal :: "string \<Rightarrow> bool" where
  "plain_decimal s =
     (case s of [] \<Rightarrow> False | c # t \<Rightarrow> if c = CHR ''-'' then unsigned_decimal t else unsigned_decimal s)"

subsection \<open>\<^verbatim>\<open>parse_energy\<close>\<close>

text \<open>The pattern \<^verbatim>\<open>r"FINAL ENERGY: (-?\d+(?:\.\d+)?)"\<close>, piece by piece.\<close>

fun lit :: "string \<Rightarrow> regex \<Rightarrow> regex" where
  "lit [] r = r"
| "lit (c # cs) r = Cat (Chr c) (lit cs r)"

definition number :: regex where
  "number = Cat (Opt (Chr CHR ''-'')) (Cat (Plus Digit) (Opt (Cat (Chr CHR ''.'') (Plus Digit))))"

definition regex :: regex where
  "regex = lit ''FINAL ENERGY: '' (Group number)"

text \<open>
  \<^verbatim>\<open>return float(re_search(regex, contents).group(1))\<close>: the exception of \<^verbatim>\<open>re_search\<close>
  propagates, and \<^verbatim>\<open>group(1)\<close> is \<^verbatim>\<open>None\<close> for a group that took no part in the match.
\<close>

definition parse_energy :: "string \<Rightarrow> error + rat" where
  "parse_energy contents =
     (case re_search regex contents of
        Inl e \<Rightarrow> Inl e
      | Inr m \<Rightarrow> (case group1 m of None \<Rightarrow> Inl TypeError | Some g \<Rightarrow> float g))"

subsection \<open>An invocation of \<^verbatim>\<open>parse_energy\<close>, step by step\<close>

text \<open>
  The same routine as a relation between the console text and an outcome, one rule for
  each way an invocation can go. \<^verbatim>\<open>re.search\<close> scans the start positions: it stops at a
  position where the pattern matches, moves on from one where it does not, and ends
  without a match after the last position. The invocation then raises
  \<^verbatim>\<open>MatchNotFoundError\<close>, or takes group 1 of the match and converts it. Nothing in the
  rules says that only one of them applies to a text; that is what determinism claims.
\<close>

inductive scans :: "regex \<Rightarrow> string \<Rightarrow> match option \<Rightarrow> bool" for r :: regex where
  hit: "first (ends r s) = Some m \<Longrightarrow> scans r s (Some m)"
| miss: "first (ends r (x # xs)) = None \<Longrightarrow> scans r xs found \<Longrightarrow> scans r (x # xs) found"
| exhausted: "first (ends r []) = None \<Longrightarrow> scans r [] None"

code_pred scans .

inductive parse_energy_run :: "string \<Rightarrow> error + rat \<Rightarrow> bool" where
  not_found: "scans regex contents None \<Longrightarrow> parse_energy_run contents (Inl MatchNotFoundError)"
| no_group: "scans regex contents (Some m) \<Longrightarrow> group1 m = None \<Longrightarrow>
             parse_energy_run contents (Inl TypeError)"
| converted: "scans regex contents (Some m) \<Longrightarrow> group1 m = Some g \<Longrightarrow>
              parse_energy_run contents (float g)"

code_pred parse_energy_run .

subsection \<open>The words of the properties\<close>

text \<open>
  The energy pattern occurs in a text if, at some position, the text reads
  \<^verbatim>\<open>FINAL ENERGY: \<close> followed by a number, that is by an optional minus sign and a digit
  (the digits and the fraction that follow belong to the number as far as they go).
\<close>

fun starts_with_digit :: "string \<Rightarrow> bool" where
  "starts_with_digit [] = False"
| "starts_with_digit (c # t) = is_digit c"

definition starts_number :: "string \<Rightarrow> bool" where
  "starts_number s =
     (case s of [] \<Rightarrow> False | c # t \<Rightarrow> if c = CHR ''-'' then starts_with_digit t else is_digit c)"

definition energy_at :: "string \<Rightarrow> bool" where
  "energy_at s = (prefix ''FINAL ENERGY: '' s \<and> starts_number (drop 14 s))"

fun pattern_occurs :: "string \<Rightarrow> bool" where
  "pattern_occurs [] = False"
| "pattern_occurs (x # xs) = (energy_at (x # xs) \<or> pattern_occurs xs)"

text \<open>
  What the number pattern leaves unread, computed directly: the longest run of digits,
  then, if a dot and a digit follow, the dot and the longest run of digits after it.
\<close>

definition after_fraction :: "string \<Rightarrow> string" where
  "after_fraction u =
     (case u of
        [] \<Rightarrow> u
      | c # v \<Rightarrow> if c = CHR ''.'' \<and> takeWhile is_digit v \<noteq> [] then dropWhile is_digit v else u)"

definition after_unsigned :: "string \<Rightarrow> string option" where
  "after_unsigned t =
     (if takeWhile is_digit t = [] then None else Some (after_fraction (dropWhile is_digit t)))"

definition after_number :: "string \<Rightarrow> string option" where
  "after_number s =
     (case s of
        [] \<Rightarrow> None
      | c # t \<Rightarrow> if c = CHR ''-'' then after_unsigned t else after_unsigned s)"


subsection \<open>File systems used as concrete inputs\<close>

definition no_files :: filesystem where
  "no_files = \<lparr>path_exists = (\<lambda>p. False), path_is_dir = (\<lambda>p. False), iterdir = (\<lambda>p. [])\<rparr>"

definition calc_dir :: filesystem where
  "calc_dir =
     \<lparr>path_exists = (\<lambda>p. p \<in> {Path ''calc'', Path ''calc/orca.engrad'', Path ''calc/notes.txt''}),
      path_is_dir = (\<lambda>p. p = Path ''calc''),
      iterdir = (\<lambda>p. if p = Path ''calc''
                       then [Path ''calc/orca.engrad'', Path ''calc/notes.txt''] else [])\<rparr>"


section \<open>What the pattern matches\<close>

text \<open>
  The lemmas of this section compute the first match of the pattern from the matcher:
  the literal must be read character by character, and the number that follows is read
  greedily, so that the first way of matching is the one given by \<open>after_number\<close>.
\<close>

lemma first_Nil: "first [] = None"
  by (simp add: first_def)

lemma first_Cons: "first (x # xs) = Some x"
  by (simp add: first_def)

lemma first_append: "first (xs @ ys) = (case first xs of None \<Rightarrow> first ys | Some x \<Rightarrow> Some x)"
  by (cases xs) (simp_all add: first_def)

lemma first_map: "first (map f xs) = map_option f (first xs)"
  by (cases xs) (simp_all add: first_def)

lemma first_None: "first xs = None \<longleftrightarrow> xs = []"
  by (cases xs) (simp_all add: first_def)

lemma later_None: "later None m = m"
  by (cases m; cases "snd m") auto

lemma map_later_None: "map (later None) ms = ms"
  by (induction ms) (simp_all add: later_None)

lemma ends_digits_Nil: "ends (Plus Digit) [] = []"
  by (simp add: ends.simps(5))

lemma ends_digits_Cons:
  "ends (Plus Digit) (c # t) = (if is_digit c then ends (Plus Digit) t @ [(t, None)] else [])"
  by (simp add: ends.simps(5) [of Digit "c # t"] map_later_None)

lemma dropWhile_no_take: "takeWhile P xs = [] \<Longrightarrow> dropWhile P xs = xs"
  by (cases xs) (auto split: if_splits)

lemma first_digits:
  "first (ends (Plus Digit) s) =
     (if takeWhile is_digit s = [] then None else Some (dropWhile is_digit s, None))"
proof (induction s)
  case Nil
  show ?case by (simp add: ends_digits_Nil first_Nil)
next
  case (Cons c t)
  show ?case
  proof (cases "is_digit c")
    case False
    then show ?thesis by (simp add: ends_digits_Cons first_Nil)
  next
    case True
    then show ?thesis
      by (simp add: ends_digits_Cons first_append Cons first_Cons dropWhile_no_take)
  qed
qed

lemma first_concat_map:
  "(\<And>x. x \<in> set xs \<Longrightarrow> f x \<noteq> []) \<Longrightarrow>
   first (concat (map f xs)) = (case first xs of None \<Rightarrow> None | Some x \<Rightarrow> first (f x))"
  by (cases xs) (auto simp: first_def split: list.splits)

lemma ends_fraction:
  "ends (Cat (Chr CHR ''.'') (Plus Digit)) u =
     (case u of [] \<Rightarrow> [] | c # v \<Rightarrow> if c = CHR ''.'' then ends (Plus Digit) v else [])"
  by (simp add: map_later_None split: list.splits)

lemma first_opt_fraction:
  "first (ends (Opt (Cat (Chr CHR ''.'') (Plus Digit))) u) = Some (after_fraction u, None)"
  by (simp add: ends_fraction first_append first_digits first_Nil first_Cons after_fraction_def
        del: ends.simps(3) split: list.splits)

lemma first_unsigned:
  "first (ends (Cat (Plus Digit) (Opt (Cat (Chr CHR ''.'') (Plus Digit)))) t) =
     map_option (\<lambda>r. (r, None)) (after_unsigned t)"
proof -
  let ?F = "Opt (Cat (Chr CHR ''.'') (Plus Digit))"
  have "first (concat (map (\<lambda>m. map (later (snd m)) (ends ?F (fst m))) (ends (Plus Digit) t))) =
        (case first (ends (Plus Digit) t) of None \<Rightarrow> None
         | Some m \<Rightarrow> first (map (later (snd m)) (ends ?F (fst m))))"
    by (rule first_concat_map) simp
  then show ?thesis
    by (simp add: first_digits first_map first_opt_fraction after_unsigned_def later_None
          del: ends.simps(4))
qed

lemma not_digit_minus: "\<not> is_digit CHR ''-''"
  by (simp add: is_digit_def)

lemma first_number:
  "first (ends number s) = map_option (\<lambda>r. (r, None)) (after_number s)"
proof (cases s)
  case Nil
  then show ?thesis
    using first_unsigned [of "[]"]
    by (simp add: number_def after_number_def after_unsigned_def map_later_None
          del: ends.simps(3,4)
          add: ends.simps(3) [of "Opt (Chr CHR ''-'')"] ends.simps(4) [of "Chr CHR ''-''"])
next
  case (Cons c t)
  have minus: "ends (Cat (Plus Digit) (Opt (Cat (Chr CHR ''.'') (Plus Digit)))) (CHR ''-'' # t) = []"
    using first_unsigned [of "CHR ''-'' # t"]
    by (simp add: first_None after_unsigned_def not_digit_minus del: ends.simps(1,2,3,4,6))
  show ?thesis
    using first_unsigned [of t] first_unsigned [of s] minus
    by (simp add: Cons number_def after_number_def map_later_None del: ends.simps(3,4)
          add: ends.simps(3) [of "Opt (Chr CHR ''-'')"] ends.simps(4) [of "Chr CHR ''-''"])
qed

lemma ends_lit:
  "ends (lit l r) s = (if prefix l s then ends r (drop (length l) s) else [])"
proof (induction l arbitrary: s)
  case Nil
  show ?case by simp
next
  case (Cons c cs)
  show ?case
    by (cases s) (simp_all add: Cons map_later_None)
qed

lemma first_group:
  "first (ends (Group number) t) =
     map_option (\<lambda>r. (r, Some (take (length t - length r) t))) (after_number t)"
  by (simp add: first_map first_number option.map_comp comp_def)

lemma first_regex:
  "first (ends regex s) =
     (if prefix ''FINAL ENERGY: '' s
      then map_option (\<lambda>r. (r, Some (take (length (drop 14 s) - length r) (drop 14 s))))
             (after_number (drop 14 s))
      else None)"
proof -
  have len: "length ''FINAL ENERGY: '' = 14"
    by simp
  have "ends regex s =
          (if prefix ''FINAL ENERGY: '' s then ends (Group number) (drop 14 s) else [])"
    unfolding regex_def ends_lit len ..
  then show ?thesis
    by (simp add: first_group first_Nil del: ends.simps(1,2,3,4,6))
qed

lemma no_digits: "takeWhile is_digit t = [] \<longleftrightarrow> \<not> starts_with_digit t"
  by (cases t) simp_all

lemma after_number_None: "after_number t = None \<longleftrightarrow> \<not> starts_number t"
  by (cases t) (simp_all add: after_number_def after_unsigned_def starts_number_def no_digits)

lemma regex_None: "first (ends regex s) = None \<longleftrightarrow> \<not> energy_at s"
  by (simp add: first_regex energy_at_def after_number_None)

lemma search_None: "search regex s = None \<longleftrightarrow> \<not> pattern_occurs s"
proof (induction s)
  case Nil
  show ?case by (simp add: regex_None energy_at_def)
next
  case (Cons x xs)
  then show ?case
    by (cases "first (ends regex (x # xs))") (simp_all add: regex_None [symmetric])
qed

text \<open>
  A match that starts inside a text \<open>p\<close> cannot reach into a following occurrence of the
  pattern: the literal begins with its only \<^verbatim>\<open>F\<close>, and \<^verbatim>\<open>F\<close> is neither a sign nor a digit.
  So the search over \<open>p\<close> followed by an occurrence finds what it finds in \<open>p\<close>, and
  otherwise that occurrence.
\<close>

lemma energy_at_iff: "energy_at q \<longleftrightarrow> (\<exists>n. q = ''FINAL ENERGY: '' @ n \<and> starts_number n)"
proof
  assume "energy_at q"
  then obtain n where q: "q = ''FINAL ENERGY: '' @ n" and "starts_number (drop 14 q)"
    by (auto simp: energy_at_def prefix_def)
  then have "starts_number n" by simp
  with q show "\<exists>n. q = ''FINAL ENERGY: '' @ n \<and> starts_number n" by blast
next
  assume "\<exists>n. q = ''FINAL ENERGY: '' @ n \<and> starts_number n"
  then show "energy_at q" by (auto simp: energy_at_def)
qed

lemma not_digit_F: "\<not> is_digit CHR ''F''"
  by (simp add: is_digit_def)

lemma starts_number_cut: "starts_number (us @ CHR ''F'' # r) \<Longrightarrow> starts_number us"
proof (cases us)
  case Nil
  assume "starts_number (us @ CHR ''F'' # r)"
  with Nil show ?thesis by (simp add: starts_number_def not_digit_F)
next
  case (Cons c t)
  assume "starts_number (us @ CHR ''F'' # r)"
  with Cons show ?thesis
    by (cases t) (auto simp: starts_number_def not_digit_F split: if_splits)
qed

lemma energy_at_cut:
  assumes "p \<noteq> []" and "energy_at (p @ CHR ''F'' # r)"
  shows "energy_at p"
proof -
  from assms(2) obtain n where eq: "p @ CHR ''F'' # r = ''FINAL ENERGY: '' @ n"
    and n: "starts_number n"
    by (auto simp: energy_at_iff)
  from eq consider (long) us where "p = ''FINAL ENERGY: '' @ us" "us @ CHR ''F'' # r = n"
    | (short) us where "p @ us = ''FINAL ENERGY: ''" "CHR ''F'' # r = us @ n"
    using append_eq_append_conv2 [of p "CHR ''F'' # r" "''FINAL ENERGY: ''" n] by blast
  then show ?thesis
  proof cases
    case long
    with n have "starts_number us" by (auto dest: starts_number_cut)
    with long show ?thesis by (auto simp: energy_at_iff)
  next
    case short
    show ?thesis
    proof (cases us)
      case Nil
      with short have "n = CHR ''F'' # r" by simp
      with n show ?thesis by (simp add: starts_number_def not_digit_F)
    next
      case (Cons u us')
      with short have "u = CHR ''F''" by simp
      with short Cons have "p @ CHR ''F'' # us' = ''FINAL ENERGY: ''" by simp
      moreover from assms(1) obtain c p' where "p = c # p'"
        by (cases p) auto
      ultimately have tail: "p' @ CHR ''F'' # us' = ''INAL ENERGY: ''"
        by simp
      have "CHR ''F'' \<in> set (p' @ CHR ''F'' # us')"
        by simp
      then have "CHR ''F'' \<in> set ''INAL ENERGY: ''"
        unfolding tail .
      then show ?thesis by simp
    qed
  qed
qed

lemma search_skip:
  "\<not> pattern_occurs pre \<Longrightarrow> search regex (pre @ CHR ''F'' # r) = search regex (CHR ''F'' # r)"
proof (induction pre)
  case Nil
  show ?case by simp
next
  case (Cons x xs)
  then have "\<not> energy_at (x # xs)" and rest: "\<not> pattern_occurs xs"
    by simp_all
  then have "\<not> energy_at ((x # xs) @ CHR ''F'' # r)"
    using energy_at_cut [of "x # xs" r] by blast
  then have "first (ends regex (x # xs @ CHR ''F'' # r)) = None"
    by (simp add: regex_None)
  with Cons.IH [OF rest] show ?case by simp
qed

lemma search_here:
  "after_number t = Some r \<Longrightarrow>
   search regex (''FINAL ENERGY: '' @ t) = Some (r, Some (take (length t - length r) t))"
  using first_regex [of "''FINAL ENERGY: '' @ t"] by simp

lemma parse_energy_first:
  assumes "\<not> pattern_occurs pre" and "after_number t = Some r"
  shows "parse_energy (pre @ ''FINAL ENERGY: '' @ t) = float (take (length t - length r) t)"
proof -
  have "search regex (pre @ ''FINAL ENERGY: '' @ t) = search regex (''FINAL ENERGY: '' @ t)"
    using search_skip [OF assms(1), of "''INAL ENERGY: '' @ t"] by simp
  then show ?thesis
    using search_here [OF assms(2)] by (simp add: parse_energy_def re_search_def group1_def)
qed

section \<open>Group 1 always converts\<close>

text \<open>
  Whatever the search finds, group 1 took part in the match and holds a string that
  \<^verbatim>\<open>float\<close> accepts: \<^verbatim>\<open>parse_energy\<close> raises nothing but \<^verbatim>\<open>MatchNotFoundError\<close>.
\<close>

lemma not_digit_dot: "\<not> is_digit CHR ''.''"
  by (simp add: is_digit_def)

lemma digits_then:
  assumes "\<forall>c \<in> set w. is_digit c" and "\<not> starts_with_digit d"
  shows "takeWhile is_digit (w @ d) = w" and "dropWhile is_digit (w @ d) = d"
  using assms by (simp_all add: no_digits dropWhile_no_take)

lemma unsigned_value_whole:
  assumes "w \<noteq> []" and "\<forall>c \<in> set w. is_digit c"
  shows "unsigned_value w = Inr (of_nat (digits_value w))"
proof -
  have run: "takeWhile is_digit w = w" "dropWhile is_digit w = []"
    using digits_then [OF assms(2), of "[]"] by simp_all
  show ?thesis
    unfolding unsigned_value_def Let_def run using assms(1) by simp
qed

lemma unsigned_value_fraction:
  assumes "w \<noteq> []" and "\<forall>c \<in> set w. is_digit c" and "f \<noteq> []" and "\<forall>c \<in> set f. is_digit c"
  shows "unsigned_value (w @ CHR ''.'' # f) = Inr (of_nat (digits_value (w @ f)) / 10 ^ length f)"
proof -
  have run: "takeWhile is_digit (w @ CHR ''.'' # f) = w"
    "dropWhile is_digit (w @ CHR ''.'' # f) = CHR ''.'' # f"
    using digits_then [OF assms(2), of "CHR ''.'' # f"] by (simp_all add: not_digit_dot)
  show ?thesis
    unfolding unsigned_value_def Let_def run using assms by (simp add: list_all_iff)
qed

lemma unsigned_capture:
  assumes "after_unsigned u = Some r"
  shows "\<exists>w q. u = w @ r \<and> unsigned_value w = Inr q \<and> starts_with_digit w"
proof -
  let ?w = "takeWhile is_digit u" and ?d = "dropWhile is_digit u"
  from assms have w: "?w \<noteq> []" and r: "r = after_fraction ?d"
    by (auto simp: after_unsigned_def split: if_splits)
  have digits: "\<forall>c \<in> set ?w. is_digit c"
    by (auto dest: set_takeWhileD)
  have u: "u = ?w @ ?d"
    by simp
  from w have start: "starts_with_digit ?w"
    by (cases u) (auto split: if_splits)
  show ?thesis
  proof (cases "r = ?d")
    case True
    with u unsigned_value_whole [OF w digits] start show ?thesis
      by metis
  next
    case False
    with r obtain v where d: "?d = CHR ''.'' # v" and v: "takeWhile is_digit v \<noteq> []"
      and r': "r = dropWhile is_digit v"
      by (auto simp: after_fraction_def split: list.splits if_splits)
    let ?f = "takeWhile is_digit v"
    have "\<forall>c \<in> set ?f. is_digit c"
      by (auto dest: set_takeWhileD)
    from unsigned_value_fraction [OF w digits v this]
    obtain q where q: "unsigned_value (?w @ CHR ''.'' # ?f) = Inr q"
      by blast
    have "u = (?w @ CHR ''.'' # ?f) @ r"
      using u d r' by (metis append.assoc append_Cons takeWhile_dropWhile_id)
    moreover from start w have "starts_with_digit (?w @ CHR ''.'' # ?f)"
      by (cases ?w) auto
    ultimately show ?thesis
      using q by blast
  qed
qed

lemma number_capture:
  assumes "after_number t = Some r"
  shows "\<exists>g q. t = g @ r \<and> float g = Inr q"
proof (cases t)
  case Nil
  with assms show ?thesis by (simp add: after_number_def)
next
  case (Cons c t')
  show ?thesis
  proof (cases "c = CHR ''-''")
    case True
    with assms Cons have "after_unsigned t' = Some r"
      by (simp add: after_number_def)
    then obtain w q where "t' = w @ r" and "unsigned_value w = Inr q"
      using unsigned_capture by blast
    with True Cons have "t = (CHR ''-'' # w) @ r" and "float (CHR ''-'' # w) = Inr (- q)"
      by (simp_all add: float_def)
    then show ?thesis by blast
  next
    case False
    with assms Cons have "after_unsigned t = Some r"
      by (simp add: after_number_def)
    then obtain w q where w: "t = w @ r" and q: "unsigned_value w = Inr q"
      and s: "starts_with_digit w"
      using unsigned_capture by blast
    from s have "float w = unsigned_value w"
      by (cases w) (auto simp: float_def not_digit_minus)
    with w q show ?thesis by auto
  qed
qed

lemma regex_shape:
  assumes "first (ends regex s) = Some m"
  shows "\<exists>t r. after_number t = Some r \<and> m = (r, Some (take (length t - length r) t))"
proof -
  from assms obtain r where "after_number (drop 14 s) = Some r"
    and "m = (r, Some (take (length (drop 14 s) - length r) (drop 14 s)))"
    unfolding first_regex by (auto split: if_splits)
  then show ?thesis by blast
qed

lemma search_shape:
  "search regex s = Some m \<Longrightarrow>
   \<exists>t r. after_number t = Some r \<and> m = (r, Some (take (length t - length r) t))"
proof (induction s)
  case Nil
  then show ?case by (simp add: regex_shape)
next
  case (Cons x xs)
  show ?case
  proof (cases "first (ends regex (x # xs))")
    case None
    with Cons show ?thesis by simp
  next
    case (Some m')
    with Cons.prems have "first (ends regex (x # xs)) = Some m"
      by simp
    then show ?thesis
      by (rule regex_shape)
  qed
qed

lemma search_converts:
  assumes "search regex s = Some m"
  shows "\<exists>g q. group1 m = Some g \<and> float g = Inr q"
proof -
  from search_shape [OF assms] obtain t r where t: "after_number t = Some r"
    and m: "m = (r, Some (take (length t - length r) t))"
    by blast
  from number_capture [OF t] obtain g q where "t = g @ r" and "float g = Inr q"
    by blast
  with m show ?thesis by (simp add: group1_def)
qed

lemma parse_energy_outcome:
  "if pattern_occurs c then \<exists>q. parse_energy c = Inr q
   else parse_energy c = Inl MatchNotFoundError"
proof (cases "search regex c")
  case None
  then show ?thesis
    using search_None [of c] by (simp add: parse_energy_def re_search_def)
next
  case (Some m)
  with search_converts [OF Some] show ?thesis
    using search_None [of c] by (auto simp: parse_energy_def re_search_def)
qed

section \<open>A number followed by an exponent\<close>

lemma unsigned_value_shape:
  assumes "unsigned_value u = Inr q"
  shows "\<exists>w. w \<noteq> [] \<and> (\<forall>c \<in> set w. is_digit c) \<and>
           (u = w \<or> (\<exists>f. u = w @ CHR ''.'' # f \<and> f \<noteq> [] \<and> (\<forall>c \<in> set f. is_digit c)))"
proof -
  let ?w = "takeWhile is_digit u" and ?d = "dropWhile is_digit u"
  have u: "u = ?w @ ?d"
    by simp
  have digits: "\<forall>c \<in> set ?w. is_digit c"
    by (auto dest: set_takeWhileD)
  from assms have w: "?w \<noteq> []"
    by (auto simp: unsigned_value_def Let_def split: if_splits)
  from assms w have "?d = [] \<or> (\<exists>f. ?d = CHR ''.'' # f \<and> f \<noteq> [] \<and> (\<forall>c \<in> set f. is_digit c))"
    by (auto simp: unsigned_value_def Let_def list_all_iff split: if_splits list.splits)
  then show ?thesis
  proof
    assume "?d = []"
    with u have "u = ?w" by simp
    with w digits show ?thesis by blast
  next
    assume "\<exists>f. ?d = CHR ''.'' # f \<and> f \<noteq> [] \<and> (\<forall>c \<in> set f. is_digit c)"
    then obtain f where "?d = CHR ''.'' # f" and f: "f \<noteq> []" "\<forall>c \<in> set f. is_digit c"
      by blast
    with u have "u = ?w @ CHR ''.'' # f" by simp
    with w digits f show ?thesis by blast
  qed
qed

lemma after_unsigned_mantissa:
  assumes "unsigned_value u = Inr q" and "\<not> is_digit c" and "c \<noteq> CHR ''.''"
  shows "after_unsigned (u @ c # rest) = Some (c # rest)"
proof -
  from unsigned_value_shape [OF assms(1)] obtain w where w: "w \<noteq> []" "\<forall>c \<in> set w. is_digit c"
    and shape: "u = w \<or> (\<exists>f. u = w @ CHR ''.'' # f \<and> f \<noteq> [] \<and> (\<forall>c \<in> set f. is_digit c))"
    by blast
  from shape show ?thesis
  proof
    assume "u = w"
    moreover have "takeWhile is_digit (w @ c # rest) = w" "dropWhile is_digit (w @ c # rest) = c # rest"
      using digits_then [OF w(2), of "c # rest"] assms(2) by simp_all
    ultimately show ?thesis
      using w(1) assms(3) by (simp add: after_unsigned_def after_fraction_def)
  next
    assume "\<exists>f. u = w @ CHR ''.'' # f \<and> f \<noteq> [] \<and> (\<forall>c \<in> set f. is_digit c)"
    then obtain f where u: "u = w @ CHR ''.'' # f" and f: "f \<noteq> []" "\<forall>c \<in> set f. is_digit c"
      by blast
    have "takeWhile is_digit (w @ CHR ''.'' # f @ c # rest) = w"
      "dropWhile is_digit (w @ CHR ''.'' # f @ c # rest) = CHR ''.'' # f @ c # rest"
      using digits_then [OF w(2), of "CHR ''.'' # f @ c # rest"] by (simp_all add: not_digit_dot)
    moreover have "takeWhile is_digit (f @ c # rest) = f" "dropWhile is_digit (f @ c # rest) = c # rest"
      using digits_then [OF f(2), of "c # rest"] assms(2) by simp_all
    ultimately show ?thesis
      using w(1) f(1) u by (simp add: after_unsigned_def after_fraction_def)
  qed
qed

lemma after_number_mantissa:
  assumes "float m = Inr v" and "\<not> is_digit c" and "c \<noteq> CHR ''.''"
  shows "after_number (m @ c # rest) = Some (c # rest)"
proof (cases m)
  case Nil
  with assms(1) show ?thesis by (simp add: float_def)
next
  case (Cons x t)
  show ?thesis
  proof (cases "x = CHR ''-''")
    case True
    with assms(1) Cons obtain q where "unsigned_value t = Inr q"
      by (cases "unsigned_value t") (auto simp: float_def)
    from after_unsigned_mantissa [OF this assms(2,3)] True Cons show ?thesis
      by (simp add: after_number_def)
  next
    case False
    with assms(1) Cons have "unsigned_value m = Inr v"
      by (simp add: float_def)
    from after_unsigned_mantissa [OF this assms(2,3)] False Cons show ?thesis
      by (simp add: after_number_def)
  qed
qed

lemma unsigned_decimal_value:
  assumes "unsigned_decimal s"
  shows "\<exists>q. unsigned_value s = Inr q"
proof (cases "dropWhile is_digit s")
  case Nil
  from assms show ?thesis
    unfolding unsigned_decimal_def unsigned_value_def Let_def Nil by simp
next
  case (Cons c fraction)
  from assms show ?thesis
    unfolding unsigned_decimal_def unsigned_value_def Let_def Cons by simp
qed

lemma plain_decimal_float:
  assumes "plain_decimal s"
  shows "\<exists>v. float s = Inr v"
proof (cases s)
  case Nil
  with assms show ?thesis by (simp add: plain_decimal_def)
next
  case (Cons c t)
  show ?thesis
  proof (cases "c = CHR ''-''")
    case True
    with assms Cons obtain q where "unsigned_value t = Inr q"
      using unsigned_decimal_value [of t] by (auto simp: plain_decimal_def)
    with True Cons show ?thesis by (simp add: float_def)
  next
    case False
    with assms Cons obtain q where "unsigned_value s = Inr q"
      using unsigned_decimal_value [of s] by (auto simp: plain_decimal_def)
    with False Cons show ?thesis by (simp add: float_def)
  qed
qed

lemma not_digit_exponent: "c = CHR ''e'' \<or> c = CHR ''E'' \<Longrightarrow> \<not> is_digit c \<and> c \<noteq> CHR ''.''"
  by (auto simp: is_digit_def)

lemmas float_defs = float_def unsigned_value_def digits_value_def digit_value_def is_digit_def
lemmas occurs_defs = energy_at_def starts_number_def is_digit_def


lemma scan_76: "\<not> starts_with_digit post \<Longrightarrow> after_number (''-76.404459'' @ post) = Some post"
  by (simp add: after_number_def after_unsigned_def after_fraction_def is_digit_def no_digits
        dropWhile_no_take)


lemma float_76: "float ''-76.404459'' = Inr (- 76.404459)"
  by (simp add: float_defs)

section \<open>Properties of \<^verbatim>\<open>iter_files\<close>\<close>

lemma iter_files_yields:
  "fst (iter_files fs stdout directory) =
     (case stdout of None \<Rightarrow> [] | Some text \<Rightarrow> [(STDOUT, Str text)]) @
     (case directory of
        None \<Rightarrow> []
      | Some d \<Rightarrow> if path_exists fs (to_Path d) \<and> path_is_dir fs (to_Path d)
                  then [(DIRECTORY, PathOf (to_Path d))] else [])"
  by (simp add: iter_files_def Let_def split: option.splits)

text \<open>
  C7. Called with neither console text nor a directory, the generator yields nothing and
  returns without raising.
\<close>

theorem iter_files_neither: "iter_files fs None None = ([], None)"
  by (simp add: iter_files_def)

theorem iter_files_neither_witness: "iter_files calc_dir None None = ([], None)"
  using iter_files_neither [of calc_dir] by simp

text \<open>
  C6. Whenever console text is supplied, the first artifact yielded is that text, tagged
  \<open>STDOUT\<close>, whatever the directory argument is (none, a directory, or a path that makes
  the generator raise afterwards).
\<close>

theorem iter_files_stdout_first:
  "\<exists>rest. fst (iter_files fs (Some text) directory) = (STDOUT, Str text) # rest"
  by (simp add: iter_files_yields)

theorem iter_files_stdout_first_witness:
  "\<exists>rest. fst (iter_files no_files (Some ''done'') (Some (OfStr ''missing''))) =
            (STDOUT, Str ''done'') # rest"
  using iter_files_stdout_first [of no_files "''done''" "Some (OfStr ''missing'')"] by simp

text \<open>
  C9. For all arguments the generator yields at most two artifacts, at most one of them
  tagged \<open>STDOUT\<close> and at most one tagged \<open>DIRECTORY\<close>, and the payload of a
  \<open>DIRECTORY\<close> artifact is the directory argument itself, as a \<open>Path\<close>. The run is a
  finite list, so iterating over it ends.
\<close>

theorem iter_files_at_most_two:
  "length (fst (iter_files fs stdout directory)) \<le> 2 \<and>
   length (filter (\<lambda>a. fst a = STDOUT) (fst (iter_files fs stdout directory))) \<le> 1 \<and>
   length (filter (\<lambda>a. fst a = DIRECTORY) (fst (iter_files fs stdout directory))) \<le> 1 \<and>
   (\<forall>a \<in> set (fst (iter_files fs stdout directory)).
      fst a = DIRECTORY \<longrightarrow> map_option (\<lambda>d. PathOf (to_Path d)) directory = Some (snd a))"
  by (auto simp: iter_files_yields split: option.splits)

theorem iter_files_at_most_two_witness:
  "fst (iter_files calc_dir (Some ''done'') (Some (OfPath (Path ''calc'')))) =
     [(STDOUT, Str ''done''), (DIRECTORY, PathOf (Path ''calc''))] \<and>
   length (fst (iter_files calc_dir (Some ''done'') (Some (OfPath (Path ''calc''))))) \<le> 2"
  using iter_files_at_most_two [of calc_dir "Some ''done''" "Some (OfPath (Path ''calc''))"]
  by (simp add: iter_files_yields calc_dir_def)

text \<open>
  C3, as stated, fails: with console text and a directory that does not exist, the
  generator yields the console text first and raises \<^verbatim>\<open>ParserError\<close> only when it is
  resumed, so the error does not come before every artifact.
\<close>

theorem iter_files_stdout_before_error:
  "iter_files no_files (Some ''FINAL ENERGY: -1.0'') (Some (OfStr ''missing'')) =
     ([(STDOUT, Str ''FINAL ENERGY: -1.0'')],
      Some (ParserError ''Directory missing does not exist or is not a directory.''))"
  by (simp add: iter_files_def not_a_directory_def no_files_def)

text \<open>
  C3, amended. If the directory argument does not exist or is not a directory, the
  generator raises \<^verbatim>\<open>ParserError\<close> and yields no \<open>DIRECTORY\<close> artifact; without console
  text nothing at all is yielded before the error, and with console text exactly the
  \<open>STDOUT\<close> artifact is.
\<close>

theorem iter_files_bad_directory:
  assumes "\<not> path_exists fs (to_Path d) \<or> \<not> path_is_dir fs (to_Path d)"
  shows "iter_files fs stdout (Some d) =
           ((case stdout of None \<Rightarrow> [] | Some text \<Rightarrow> [(STDOUT, Str text)]),
            Some (ParserError (not_a_directory (to_Path d))))"
  using assms by (auto simp: iter_files_def)

theorem iter_files_bad_directory_witness:
  "path_exists calc_dir (to_Path (OfStr ''calc/notes.txt'')) \<and>
   \<not> path_is_dir calc_dir (to_Path (OfStr ''calc/notes.txt'')) \<and>
   iter_files calc_dir None (Some (OfStr ''calc/notes.txt'')) =
     ([], Some (ParserError ''Directory calc/notes.txt does not exist or is not a directory.''))"
  using iter_files_bad_directory [of calc_dir "OfStr ''calc/notes.txt''" None]
  by (simp add: calc_dir_def not_a_directory_def)

text \<open>
  C4, as stated, fails: for a directory that holds two files, what the generator yields
  for it is not a file of the directory but the directory itself, and neither file is
  yielded.
\<close>

theorem iter_files_yields_directory_itself:
  "iter_files calc_dir None (Some (OfStr ''calc'')) = ([(DIRECTORY, PathOf (Path ''calc''))], None) \<and>
   iterdir calc_dir (Path ''calc'') = [Path ''calc/orca.engrad'', Path ''calc/notes.txt''] \<and>
   Path ''calc'' \<notin> set (iterdir calc_dir (Path ''calc''))"
  by (simp add: iter_files_def calc_dir_def)

text \<open>
  C4, amended. For an existing directory the generator yields, after the console text if
  there is one, exactly one \<open>DIRECTORY\<close> artifact, whose payload is the path of the
  directory, and returns. It never lists the directory: whatever the entries are, no file
  inside is yielded and none causes an error.
\<close>

theorem iter_files_directory_artifact:
  assumes "path_exists fs (to_Path d)" and "path_is_dir fs (to_Path d)"
  shows "iter_files (fs\<lparr>iterdir := entries\<rparr>) stdout (Some d) =
           ((case stdout of None \<Rightarrow> [] | Some text \<Rightarrow> [(STDOUT, Str text)]) @
            [(DIRECTORY, PathOf (to_Path d))], None)"
  using assms by (simp add: iter_files_def)

theorem iter_files_directory_artifact_witness:
  "path_exists calc_dir (to_Path (OfStr ''calc'')) \<and> path_is_dir calc_dir (to_Path (OfStr ''calc'')) \<and>
   iter_files (calc_dir\<lparr>iterdir := iterdir no_files\<rparr>) (Some ''done'') (Some (OfStr ''calc'')) =
     ([(STDOUT, Str ''done''), (DIRECTORY, PathOf (Path ''calc''))], None)"
  using iter_files_directory_artifact [of calc_dir "OfStr ''calc''" "iterdir no_files" "Some ''done''"]
  by (simp add: calc_dir_def)

section \<open>Properties of \<^verbatim>\<open>parse_energy\<close>\<close>

text \<open>
  C5. If the energy pattern does not occur in the console text, \<^verbatim>\<open>parse_energy\<close> raises
  \<^verbatim>\<open>MatchNotFoundError\<close>: it returns no value at all, in particular no default.
\<close>

theorem parse_energy_pattern_absent:
  assumes "\<not> pattern_occurs contents"
  shows "parse_energy contents = Inl MatchNotFoundError"
proof -
  from assms have "search regex contents = None"
    by (simp add: search_None)
  then show ?thesis
    by (simp add: parse_energy_def re_search_def)
qed

theorem parse_energy_pattern_absent_witness:
  "\<not> pattern_occurs ''FINAL ENERGY: n/a'' \<and> parse_energy ''FINAL ENERGY: n/a'' = Inl MatchNotFoundError"
  using parse_energy_pattern_absent [of "''FINAL ENERGY: n/a''"]
  by (simp add: occurs_defs)




text \<open>
  C2, as stated, fails: the surrounding text is not arbitrary. When a digit follows
  \<^verbatim>\<open>FINAL ENERGY: -76.404459\<close> directly, the greedy \<^verbatim>\<open>\d+\<close> reads it as part of the number.
\<close>

theorem parse_energy_trailing_digit:
  "parse_energy ''FINAL ENERGY: -76.4044595'' = Inr (- 76.4044595) \<and>
   parse_energy ''FINAL ENERGY: -76.4044595'' \<noteq> Inr (- 76.404459)"
proof -
  have "after_number ''-76.4044595'' = Some []"
    by (simp add: after_number_def after_unsigned_def after_fraction_def is_digit_def)
  from parse_energy_first [of "[]", OF _ this] show ?thesis
    by (simp add: float_defs)
qed

text \<open>
  C2, amended. If the pattern does not occur in the text before
  \<^verbatim>\<open>FINAL ENERGY: -76.404459\<close> and the text after it does not begin with a digit, then
  \<^verbatim>\<open>parse_energy\<close> returns the float \<open>-76.404459\<close>; the surrounding text is otherwise
  arbitrary.
\<close>

theorem parse_energy_embedded:
  assumes "\<not> pattern_occurs pre" and "\<not> starts_with_digit post"
  shows "parse_energy (pre @ ''FINAL ENERGY: -76.404459'' @ post) = Inr (- 76.404459)"
  using parse_energy_first [OF assms(1) scan_76 [OF assms(2)]]
  by (simp add: float_76)

theorem parse_energy_embedded_witness:
  "\<not> pattern_occurs ''ORCA run; '' \<and> \<not> starts_with_digit '' Eh (converged)'' \<and>
   parse_energy ''ORCA run; FINAL ENERGY: -76.404459 Eh (converged)'' = Inr (- 76.404459)"
  using parse_energy_embedded [of "''ORCA run; ''" "'' Eh (converged)''"]
  by (simp add: occurs_defs)

text \<open>
  C10, as stated, fails: not every energy written in scientific notation is read. A
  mantissa with a plus sign (and likewise one that begins with the point) is no match of
  \<^verbatim>\<open>-?\d+(?:\.\d+)?\<close>, so the pattern does not occur and the routine raises
  \<^verbatim>\<open>MatchNotFoundError\<close>.
\<close>

theorem parse_energy_plus_mantissa:
  "parse_energy ''FINAL ENERGY: +7.64e+01'' = Inl MatchNotFoundError"
  using parse_energy_outcome [of "''FINAL ENERGY: +7.64e+01''"]
  by (simp add: occurs_defs)

text \<open>
  C10, amended. When the energy of the console text (its first occurrence of the
  pattern) is written in scientific notation with a mantissa of the shape
  \<^verbatim>\<open>-?\d+(\.\d+)?\<close>, followed by \<^verbatim>\<open>e\<close> or \<^verbatim>\<open>E\<close> and an exponent, \<^verbatim>\<open>parse_energy\<close>
  does not fail: the pattern stops before the exponent, and the value of the mantissa
  alone is returned. For \<^verbatim>\<open>FINAL ENERGY: -7.64e+01\<close> that is \<open>-7.64\<close>.
\<close>

theorem parse_energy_mantissa_only:
  assumes "\<not> pattern_occurs pre" and "plain_decimal mantissa"
    and "marker = CHR ''e'' \<or> marker = CHR ''E''"
  shows "parse_energy (pre @ ''FINAL ENERGY: '' @ mantissa @ marker # exponent) = float mantissa \<and>
         (\<exists>v. float mantissa = Inr v)"
proof -
  from plain_decimal_float [OF assms(2)] obtain v where v: "float mantissa = Inr v"
    by blast
  from not_digit_exponent [OF assms(3)] have "\<not> is_digit marker" and "marker \<noteq> CHR ''.''"
    by simp_all
  with v have "after_number (mantissa @ marker # exponent) = Some (marker # exponent)"
    by (rule after_number_mantissa)
  from parse_energy_first [OF assms(1) this] v show ?thesis
    by simp
qed

theorem parse_energy_mantissa_only_witness:
  "\<not> pattern_occurs ''SCF done. '' \<and> plain_decimal ''-7.64'' \<and>
   parse_energy ''SCF done. FINAL ENERGY: -7.64e+01 Eh'' = Inr (- 7.64)"
  using parse_energy_mantissa_only [of "''SCF done. ''" "''-7.64''" "CHR ''e''" "''+01 Eh''"]
  by (simp add: float_defs energy_at_def starts_number_def plain_decimal_def unsigned_decimal_def)

section \<open>Determinism\<close>

text \<open>
  Two scans of the same text end the same way: at each position exactly one of the rules
  applies, because the matcher either reports a first match there or reports none.
\<close>

lemma scans_deterministic: "scans r s a \<Longrightarrow> scans r s b \<Longrightarrow> a = b"
proof (induction arbitrary: b rule: scans.induct)
  case (hit s m)
  from hit.prems hit.hyps show ?case
    by (cases rule: scans.cases) auto
next
  case (miss x xs found)
  from miss.prems miss.hyps(1) have "scans r xs b"
    by (cases rule: scans.cases) auto
  then show ?case
    by (rule miss.IH)
next
  case exhausted
  from exhausted.prems exhausted.hyps show ?case
    by (cases rule: scans.cases) auto
qed

lemma parse_energy_run_deterministic:
  assumes "parse_energy_run contents a" and "parse_energy_run contents b"
  shows "a = b"
  using assms
proof (cases rule: parse_energy_run.cases [case_product parse_energy_run.cases])
qed (auto dest: scans_deterministic)

text \<open>Every text has an invocation, and its outcome is the one the function computes.\<close>

lemma scans_search: "scans r s (search r s)"
proof (induction s)
  case Nil
  show ?case
    by (cases "first (ends r [])") (auto intro: scans.intros)
next
  case (Cons x xs)
  then show ?case
    by (cases "first (ends r (x # xs))") (auto intro: scans.intros)
qed

lemma parse_energy_run_function: "parse_energy_run contents (parse_energy contents)"
proof (cases "search regex contents")
  case None
  with scans_search [of regex contents] show ?thesis
    by (simp add: parse_energy_def re_search_def not_found)
next
  case found: (Some m)
  with scans_search [of regex contents] have run: "scans regex contents (Some m)"
    by simp
  show ?thesis
  proof (cases "group1 m")
    case None
    with run found show ?thesis
      by (simp add: parse_energy_def re_search_def no_group)
  next
    case (Some g)
    with found converted [OF run Some] show ?thesis
      by (simp add: parse_energy_def re_search_def)
  qed
qed

lemma parse_energy_run_iff: "parse_energy_run contents a \<longleftrightarrow> a = parse_energy contents"
  using parse_energy_run_deterministic [of contents a "parse_energy contents"]
    parse_energy_run_function [of contents]
  by auto




end
